theory Spec2Isabelle
  imports Complex_Main "HOL-Library.Multiset" "HOL-Library.Sublist"
begin

section \<open>JavaScript values\<close>

text \<open>
  The log table works on the records that \<open>useLogs\<close> returns: objects decoded from JSON,
  read through dynamic property access (\<open>a[sortField]\<close>, \<open>Object.values(item)\<close>). The
  values are therefore modelled untyped, with the conversions and comparisons of the
  language written out as far as the component uses them.

  Strings are lists of 8-bit characters, read as UTF-16 code units below 256.

  A finite number is \<open>Dec m e\<close>, the decimal \<open>m \<times> 10\<^sup>e\<close>; a double is represented by the
  shortest decimal that reads back as that double, which is the digit string that
  \<open>Number.prototype.toString\<close> prints. Reading a literal gives its exact decimal value:
  rounding of literals with more than 15 significant digits, overflow to \<open>Infinity\<close> and the
  sign of zero are not modelled.
\<close>

datatype jsnum = NaN | NegInf | PosInf | Dec int int

datatype jsval =
    JUndefined
  | JNull
  | JBool bool
  | JNum jsnum
  | JStr string
  | JArr "jsval list"
  | JObj "(string \<times> jsval) list"

datatype js_error = TypeError

subsection \<open>Numbers\<close>

definition dec_val :: "int \<Rightarrow> int \<Rightarrow> rat" where
  "dec_val m e = of_int m * 10 powi e"

text \<open>\<open>x < y\<close> on numbers: false as soon as one side is \<open>NaN\<close>.\<close>

fun num_lt :: "jsnum \<Rightarrow> jsnum \<Rightarrow> bool" where
  "num_lt (Dec m1 e1) (Dec m2 e2) = (dec_val m1 e1 < dec_val m2 e2)"
| "num_lt NegInf (Dec m e) = True"
| "num_lt NegInf PosInf = True"
| "num_lt (Dec m e) PosInf = True"
| "num_lt _ _ = False"

fun num_neg :: "jsnum \<Rightarrow> jsnum" where
  "num_neg NaN = NaN"
| "num_neg NegInf = PosInf"
| "num_neg PosInf = NegInf"
| "num_neg (Dec m e) = Dec (- m) e"

definition digit_char :: "nat \<Rightarrow> char" where
  "digit_char d = char_of (48 + d)"

fun digits_of :: "nat \<Rightarrow> string" where
  "digits_of n = (if n < 10 then [digit_char n] else digits_of (n div 10) @ [digit_char (n mod 10)])"

declare digits_of.simps [simp del]

fun strip_zeros :: "nat \<Rightarrow> int \<Rightarrow> nat \<times> int" where
  "strip_zeros s e = (if s \<noteq> 0 \<and> s mod 10 = 0 then strip_zeros (s div 10) (e + 1) else (s, e))"

declare strip_zeros.simps [simp del]

text \<open>
  \<open>Number::toString\<close> in radix 10: with \<open>k\<close> digits \<open>ds\<close> and the decimal point after the
  \<open>n\<close>-th digit, the number is printed as an integer, with a point inside, with leading
  \<open>0.00\<close>, or in exponent notation.
\<close>

definition dec_to_string :: "int \<Rightarrow> int \<Rightarrow> string" where
  "dec_to_string m e =
    (if m = 0 then ''0''
     else let (s, e') = strip_zeros (nat \<bar>m\<bar>) e;
              ds = digits_of s;
              k = int (length ds);
              n = k + e';
              body =
                (if k \<le> n \<and> n \<le> 21 then ds @ replicate (nat (n - k)) CHR ''0''
                 else if 0 < n \<and> n \<le> 21 then take (nat n) ds @ ''.'' @ drop (nat n) ds
                 else if - 6 < n \<and> n \<le> 0 then ''0.'' @ replicate (nat (- n)) CHR ''0'' @ ds
                 else (if k = 1 then ds else take 1 ds @ ''.'' @ drop 1 ds)
                      @ ''e'' @ (if 0 \<le> n - 1 then ''+'' else ''-'') @ digits_of (nat \<bar>n - 1\<bar>))
          in (if m < 0 then ''-'' else []) @ body)"

fun num_to_string :: "jsnum \<Rightarrow> string" where
  "num_to_string NaN = ''NaN''"
| "num_to_string PosInf = ''Infinity''"
| "num_to_string NegInf = ''-Infinity''"
| "num_to_string (Dec m e) = dec_to_string m e"

subsection \<open>Strings\<close>

definition code_unit :: "char \<Rightarrow> nat" where
  "code_unit c = of_char c"

text \<open>\<open>s < t\<close> on strings: lexicographic on code units, a proper prefix is smaller.\<close>

fun str_lt :: "string \<Rightarrow> string \<Rightarrow> bool" where
  "str_lt [] [] = False"
| "str_lt [] (d # t) = True"
| "str_lt (c # s) [] = False"
| "str_lt (c # s) (d # t) =
     (if code_unit c < code_unit d then True
      else if code_unit d < code_unit c then False
      else str_lt s t)"

text \<open>
  \<open>toLowerCase\<close> on code units below 256: \<open>A\<close> to \<open>Z\<close> and the accented capitals 192 to 222
  (without the multiplication sign 215) move up by 32.
\<close>

definition lower_char :: "char \<Rightarrow> char" where
  "lower_char c =
    (let n = code_unit c
     in if (65 \<le> n \<and> n \<le> 90) \<or> (192 \<le> n \<and> n \<le> 222 \<and> n \<noteq> 215)
        then char_of (n + 32) else c)"

definition toLowerCase :: "string \<Rightarrow> string" where
  "toLowerCase s = map lower_char s"

text \<open>\<open>s.includes(q)\<close>: \<open>q\<close> occurs in \<open>s\<close> at some position.\<close>

primrec str_includes :: "string \<Rightarrow> string \<Rightarrow> bool" where
  "str_includes [] q = (q = [])"
| "str_includes (c # s) q = (prefix q (c # s) \<or> str_includes s q)"

subsection \<open>Reading numbers from strings\<close>

definition is_ws :: "char \<Rightarrow> bool" where
  "is_ws c = (code_unit c \<in> {9, 10, 11, 12, 13, 32, 160})"

definition is_digit :: "char \<Rightarrow> bool" where
  "is_digit c = (48 \<le> code_unit c \<and> code_unit c \<le> 57)"

definition digits_val :: "string \<Rightarrow> nat" where
  "digits_val ds = foldl (\<lambda>n c. 10 * n + (code_unit c - 48)) 0 ds"

definition parse_sign :: "string \<Rightarrow> bool \<times> string" where
  "parse_sign s =
    (case s of
       [] \<Rightarrow> (False, s)
     | c # r \<Rightarrow> if c = CHR ''-'' then (True, r) else if c = CHR ''+'' then (False, r) else (False, s))"

definition parse_exponent :: "string \<Rightarrow> int \<times> string" where
  "parse_exponent s =
    (case s of
       [] \<Rightarrow> (0, s)
     | c # r \<Rightarrow>
         if c = CHR ''e'' \<or> c = CHR ''E''
         then (let (neg, r1) = parse_sign r; ds = takeWhile is_digit r1
               in if ds = [] then (0, s)
                  else ((if neg then - int (digits_val ds) else int (digits_val ds)),
                        dropWhile is_digit r1))
         else (0, s))"

text \<open>
  The longest prefix that is an unsigned decimal literal (\<open>Infinity\<close>, or digits with an
  optional fraction and exponent), with its value and the rest of the string.
\<close>

definition parse_unsigned :: "string \<Rightarrow> (jsnum \<times> string) option" where
  "parse_unsigned s =
    (if prefix ''Infinity'' s then Some (PosInf, drop 8 s)
     else let ip = takeWhile is_digit s;
              r1 = dropWhile is_digit s;
              (fp, r2) = (case r1 of
                            [] \<Rightarrow> ([], r1)
                          | c # r \<Rightarrow> if c = CHR ''.''
                                     then (takeWhile is_digit r, dropWhile is_digit r)
                                     else ([], r1))
          in if ip = [] \<and> fp = [] then None
             else let (ex, r3) = parse_exponent r2
                  in Some (Dec (int (digits_val (ip @ fp))) (ex - int (length fp)), r3))"

definition parse_decimal :: "string \<Rightarrow> (jsnum \<times> string) option" where
  "parse_decimal s =
    (let (neg, r) = parse_sign s
     in case parse_unsigned r of
          None \<Rightarrow> None
        | Some (v, rest) \<Rightarrow> Some (if neg then num_neg v else v, rest))"

text \<open>
  \<open>parseFloat\<close> on a string: leading white space is skipped, the longest decimal prefix
  is read, anything after it is ignored; no such prefix gives \<open>NaN\<close>.
\<close>

definition parseFloat_string :: "string \<Rightarrow> jsnum" where
  "parseFloat_string s =
    (case parse_decimal (dropWhile is_ws s) of None \<Rightarrow> NaN | Some (v, rest) \<Rightarrow> v)"

definition radix_digit :: "char \<Rightarrow> nat option" where
  "radix_digit c =
    (let n = code_unit c
     in if 48 \<le> n \<and> n \<le> 57 then Some (n - 48)
        else if 97 \<le> n \<and> n \<le> 102 then Some (n - 87)
        else if 65 \<le> n \<and> n \<le> 70 then Some (n - 55)
        else None)"

fun radix_digits :: "nat \<Rightarrow> nat \<Rightarrow> string \<Rightarrow> nat option" where
  "radix_digits radix acc [] = Some acc"
| "radix_digits radix acc (c # cs) =
     (case radix_digit c of
        None \<Rightarrow> None
      | Some d \<Rightarrow> if d < radix then radix_digits radix (radix * acc + d) cs else None)"

definition radix_literal :: "string \<Rightarrow> nat option" where
  "radix_literal t =
    (case t of
       z # x # d # ds \<Rightarrow>
         if z \<noteq> CHR ''0'' then None
         else if x = CHR ''x'' \<or> x = CHR ''X'' then radix_digits 16 0 (d # ds)
         else if x = CHR ''o'' \<or> x = CHR ''O'' then radix_digits 8 0 (d # ds)
         else if x = CHR ''b'' \<or> x = CHR ''B'' then radix_digits 2 0 (d # ds)
         else None
     | _ \<Rightarrow> None)"

definition trim :: "string \<Rightarrow> string" where
  "trim s = rev (dropWhile is_ws (rev (dropWhile is_ws s)))"

text \<open>
  The conversion of a string to a number that \<open><\<close> applies: the whole trimmed string has
  to be a numeric literal, the empty string is 0.
\<close>

definition string_to_number :: "string \<Rightarrow> jsnum" where
  "string_to_number s =
    (let t = trim s
     in if t = [] then Dec 0 0
        else case radix_literal t of
               Some n \<Rightarrow> Dec (int n) 0
             | None \<Rightarrow> (case parse_decimal t of
                          Some (v, []) \<Rightarrow> v
                        | _ \<Rightarrow> NaN))"

subsection \<open>Conversions and comparison of values\<close>

fun join_comma :: "string list \<Rightarrow> string" where
  "join_comma [] = []"
| "join_comma [s] = s"
| "join_comma (s # t # ss) = s @ '','' @ join_comma (t # ss)"

text \<open>
  The string conversion of the language. An array is the join of its elements with
  commas, \<open>null\<close> and \<open>undefined\<close> elements giving the empty string; an object decoded from
  JSON prints as \<open>[object Object]\<close> (a record that carries its own \<open>toString\<close> key is outside
  the model).
\<close>

fun to_string :: "jsval \<Rightarrow> string" where
  "to_string JUndefined = ''undefined''"
| "to_string JNull = ''null''"
| "to_string (JBool b) = (if b then ''true'' else ''false'')"
| "to_string (JNum n) = num_to_string n"
| "to_string (JStr s) = s"
| "to_string (JArr vs) =
     join_comma (map (\<lambda>v. case v of JUndefined \<Rightarrow> [] | JNull \<Rightarrow> [] | _ \<Rightarrow> to_string v) vs)"
| "to_string (JObj kvs) = ''[object Object]''"

text \<open>
  The method call \<open>value.toString()\<close>: \<open>null\<close> and \<open>undefined\<close> have no properties, the call
  throws a \<open>TypeError\<close>.
\<close>

definition toString_method :: "jsval \<Rightarrow> js_error + string" where
  "toString_method v =
    (case v of JUndefined \<Rightarrow> Inl TypeError | JNull \<Rightarrow> Inl TypeError | _ \<Rightarrow> Inr (to_string v))"

definition to_primitive :: "jsval \<Rightarrow> jsval" where
  "to_primitive v = (case v of JArr vs \<Rightarrow> JStr (to_string v) | JObj kvs \<Rightarrow> JStr (to_string v) | _ \<Rightarrow> v)"

fun to_number :: "jsval \<Rightarrow> jsnum" where
  "to_number JUndefined = NaN"
| "to_number JNull = Dec 0 0"
| "to_number (JBool b) = (if b then Dec 1 0 else Dec 0 0)"
| "to_number (JNum n) = n"
| "to_number (JStr s) = string_to_number s"
| "to_number (JArr vs) = string_to_number (to_string (JArr vs))"
| "to_number (JObj kvs) = string_to_number (to_string (JObj kvs))"

text \<open>
  \<open>a < b\<close>: two strings compare as strings, everything else is converted to numbers.
  \<open>a > b\<close> is \<open>b < a\<close>.
\<close>

definition js_lt :: "jsval \<Rightarrow> jsval \<Rightarrow> bool" where
  "js_lt a b =
    (case (to_primitive a, to_primitive b) of
       (JStr s, JStr t) \<Rightarrow> str_lt s t
     | (pa, pb) \<Rightarrow> num_lt (to_number pa) (to_number pb))"

text \<open>\<open>parseFloat(v)\<close> converts its argument to a string first.\<close>

definition parseFloat :: "jsval \<Rightarrow> jsnum" where
  "parseFloat v = parseFloat_string (to_string v)"

section \<open>Objects and arrays\<close>

text \<open>
  An object is the list of its own properties in insertion order. \<open>obj[k]\<close> finds the
  property or gives \<open>undefined\<close>; \<open>Object.values\<close> lists the values in order (keys that look
  like array indices, which the language would list first, do not occur in log records).
\<close>

type_synonym js_object = "(string \<times> jsval) list"

definition get_prop :: "js_object \<Rightarrow> string \<Rightarrow> jsval" where
  "get_prop obj k = (case map_of obj k of None \<Rightarrow> JUndefined | Some v \<Rightarrow> v)"

definition Object_values :: "js_object \<Rightarrow> jsval list" where
  "Object_values obj = map snd obj"

text \<open>
  \<open>xs.slice(start, end)\<close> for integer arguments: a negative index counts from the end,
  both indices are clamped to the array.
\<close>

definition js_slice :: "'a list \<Rightarrow> int \<Rightarrow> int \<Rightarrow> 'a list" where
  "js_slice xs start fin =
    (let len = int (length xs);
         k = (if start < 0 then max (len + start) 0 else min start len);
         final = (if fin < 0 then max (len + fin) 0 else min fin len)
     in take (nat (final - k)) (drop (nat k) xs))"

text \<open>
  \<open>xs.filter(p)\<close> and \<open>xs.some(p)\<close> with a callback that may throw: the first exception
  ends the call. \<open>some\<close> stops at the first element for which the callback is true.
\<close>

fun filter_throwing :: "('a \<Rightarrow> js_error + bool) \<Rightarrow> 'a list \<Rightarrow> js_error + 'a list" where
  "filter_throwing p [] = Inr []"
| "filter_throwing p (x # xs) =
     (case p x of
        Inl e \<Rightarrow> Inl e
      | Inr b \<Rightarrow> (case filter_throwing p xs of
                    Inl e \<Rightarrow> Inl e
                  | Inr ys \<Rightarrow> Inr (if b then x # ys else ys)))"

fun some_throwing :: "('a \<Rightarrow> js_error + bool) \<Rightarrow> 'a list \<Rightarrow> js_error + bool" where
  "some_throwing p [] = Inr False"
| "some_throwing p (x # xs) =
     (case p x of
        Inl e \<Rightarrow> Inl e
      | Inr b \<Rightarrow> if b then Inr True else some_throwing p xs)"

subsection \<open>Array.prototype.sort\<close>

text \<open>
  \<open>xs.sort(cmp)\<close> is the one operation of the component whose result the language does
  not fix in every case. ECMAScript requires the sorted order, and a stable one, when
  \<open>cmp\<close> is a consistent comparison function for the elements: \<open>cmp a a = 0\<close>, equality
  under \<open>cmp\<close> is symmetric and transitive, and \<open><\<close> and \<open>>\<close> under \<open>cmp\<close> are
  transitive. For any other \<open>cmp\<close> the order is implementation-defined.
\<close>

definition consistent_on :: "'a set \<Rightarrow> ('a \<Rightarrow> 'a \<Rightarrow> int) \<Rightarrow> bool" where
  "consistent_on S cmp \<longleftrightarrow>
     (\<forall>a\<in>S. cmp a a = 0)
   \<and> (\<forall>a\<in>S. \<forall>b\<in>S. cmp a b = 0 \<longrightarrow> cmp b a = 0)
   \<and> (\<forall>a\<in>S. \<forall>b\<in>S. \<forall>c\<in>S. cmp a b = 0 \<and> cmp b c = 0 \<longrightarrow> cmp a c = 0)
   \<and> (\<forall>a\<in>S. \<forall>b\<in>S. \<forall>c\<in>S. cmp a b < 0 \<and> cmp b c < 0 \<longrightarrow> cmp a c < 0)
   \<and> (\<forall>a\<in>S. \<forall>b\<in>S. \<forall>c\<in>S. 0 < cmp a b \<and> 0 < cmp b c \<longrightarrow> 0 < cmp a c)"

text \<open>
  The order the language requires for a consistent \<open>cmp\<close> is the one of the stable
  insertion sort: an element stays in front of the elements that followed it in the input
  unless \<open>cmp\<close> puts it behind them (\<open>cmp x y > 0\<close>).
\<close>

fun insert_sorted :: "('a \<Rightarrow> 'a \<Rightarrow> int) \<Rightarrow> 'a \<Rightarrow> 'a list \<Rightarrow> 'a list" where
  "insert_sorted cmp x [] = [x]"
| "insert_sorted cmp x (y # ys) =
     (if 0 < cmp x y then y # insert_sorted cmp x ys else x # y # ys)"

fun stable_sort :: "('a \<Rightarrow> 'a \<Rightarrow> int) \<Rightarrow> 'a list \<Rightarrow> 'a list" where
  "stable_sort cmp [] = []"
| "stable_sort cmp (x # xs) = insert_sorted cmp x (stable_sort cmp xs)"

text \<open>
  The sort of the engine that runs the component is a parameter of the model. What is
  known of it is what the language guarantees: it rearranges the elements, and for a
  consistent \<open>cmp\<close> it returns the stable sorted order.
\<close>

type_synonym 'a array_sort = "('a \<Rightarrow> 'a \<Rightarrow> int) \<Rightarrow> 'a list \<Rightarrow> 'a list"

definition conforming_sort :: "'a array_sort \<Rightarrow> bool" where
  "conforming_sort srt \<longleftrightarrow>
     (\<forall>cmp xs. mset (srt cmp xs) = mset xs)
   \<and> (\<forall>cmp xs. consistent_on (set xs) cmp \<longrightarrow> srt cmp xs = stable_sort cmp xs)"




section \<open>The retrieval log table\<close>

text \<open>
  The component \<open>Retrieval\<close> computes the rows it renders from the fetched \<open>logs\<close> and
  four pieces of state: \<open>currentPage\<close>, \<open>sortField\<close>, \<open>sortDirection\<close> and \<open>filterQuery\<close>.
  Each constant of the component body is a function of what it reads, and of the sort of
  the engine where it sorts. Page numbers are integers; \<open>sortField\<close> is a string or
  \<open>null\<close>.
\<close>

datatype sort_direction = Asc | Desc

definition itemsPerPage :: int where
  "itemsPerPage = 10"

definition indexOfLastItem :: "int \<Rightarrow> int" where
  "indexOfLastItem currentPage = currentPage * itemsPerPage"

definition indexOfFirstItem :: "int \<Rightarrow> int" where
  "indexOfFirstItem currentPage = indexOfLastItem currentPage - itemsPerPage"

definition filteredLogs :: "js_object list \<Rightarrow> js_object list" where
  "filteredLogs logs = filter (\<lambda>log. get_prop log ''pipelineRunType'' \<noteq> JStr ''embedding'') logs"

definition currentItems :: "js_object list \<Rightarrow> int \<Rightarrow> js_object list" where
  "currentItems logs currentPage =
    js_slice (filter (\<lambda>log. get_prop log ''pipelineRunType'' \<noteq> JStr ''embedding'') logs)
      (indexOfFirstItem currentPage) (indexOfLastItem currentPage)"

text \<open>The comparison function handed to \<open>sort\<close>.\<close>

definition compareFn :: "string \<Rightarrow> sort_direction \<Rightarrow> js_object \<Rightarrow> js_object \<Rightarrow> int" where
  "compareFn sortField sortDirection a b =
    (let valueA = (if sortField = ''score'' then JNum (parseFloat (get_prop a ''score''))
                   else get_prop a sortField);
         valueB = (if sortField = ''score'' then JNum (parseFloat (get_prop b ''score''))
                   else get_prop b sortField)
     in if js_lt valueA valueB then (if sortDirection = Asc then - 1 else 1)
        else if js_lt valueB valueA then (if sortDirection = Asc then 1 else - 1)
        else 0)"

text \<open>\<open>!sortField\<close> holds for \<open>null\<close> and for the empty string.\<close>

definition sortedItems ::
  "js_object array_sort \<Rightarrow> js_object list \<Rightarrow> string option \<Rightarrow> sort_direction
     \<Rightarrow> js_object list" where
  "sortedItems srt items sortField sortDirection =
    (case sortField of
       None \<Rightarrow> items
     | Some f \<Rightarrow> if f = [] then items else srt (compareFn f sortDirection) items)"

definition itemValuesIncludeQuery :: "string \<Rightarrow> js_object \<Rightarrow> js_error + bool" where
  "itemValuesIncludeQuery filterQuery item =
    some_throwing
      (\<lambda>v. case toString_method v of
              Inl e \<Rightarrow> Inl e
            | Inr s \<Rightarrow> Inr (str_includes (toLowerCase s) (toLowerCase filterQuery)))
      (Object_values item)"

definition filteredAndSortedItems :: "js_object list \<Rightarrow> string \<Rightarrow> js_error + js_object list" where
  "filteredAndSortedItems items filterQuery =
    filter_throwing (itemValuesIncludeQuery filterQuery) items"

text \<open>
  The rows of the table body, or the exception that ends the render, and the
  \<open>totalItems\<close> handed to the pagination control.
\<close>

definition Retrieval_rows ::
  "js_object array_sort \<Rightarrow> js_object list \<Rightarrow> int \<Rightarrow> string option \<Rightarrow> sort_direction
     \<Rightarrow> string \<Rightarrow> js_error + js_object list" where
  "Retrieval_rows srt logs currentPage sortField sortDirection filterQuery =
    filteredAndSortedItems
      (sortedItems srt (currentItems logs currentPage) sortField sortDirection) filterQuery"

definition totalItems :: "js_object list \<Rightarrow> nat" where
  "totalItems logs = length (filteredLogs logs)"

subsection \<open>Notions used to state the properties\<close>



text \<open>
  A field value matches the filter text when its string form, in lower case, contains the
  filter text, in lower case, as a substring. A record is null-free when none of its
  field values is \<open>null\<close> or \<open>undefined\<close>.
\<close>

definition value_matches :: "string \<Rightarrow> jsval \<Rightarrow> bool" where
  "value_matches q v \<longleftrightarrow> sublist (toLowerCase q) (toLowerCase (to_string v))"

definition null_free :: "js_object \<Rightarrow> bool" where
  "null_free item \<longleftrightarrow> (\<forall>v\<in>set (Object_values item). v \<noteq> JUndefined \<and> v \<noteq> JNull)"

section \<open>Deploy Form Controller\<close>

text \<open>
  The deploy form component keeps its fields in React state. \<open>handleSubmit\<close> reads the
  state, asks the session provider for a token, validates, and posts the form. The model
  passes the state explicitly and returns the state after the handler has run together with
  the trace of everything the handler did to the outside world, in order.

  The record field \<open>value\<close> of a secret pair is written \<open>svalue\<close> and \<open>key\<close> is written
  \<open>skey\<close>.
\<close>

record SecretPair =
  skey :: string
  svalue :: string

record DeployFormState =
  secretPairs :: "SecretPair list"
  selectedApiKey :: string
  newPublicKey :: string
  newPrivateKey :: string
  newApiKeyName :: string
  pipelineName :: string
  githubUrl :: string
  isLoading :: bool

record FormData =
  pipeline_name :: string
  repo_url :: string
  secret_pairs :: "SecretPair list"

text \<open>
  What the two awaited calls can do. \<open>supabase.auth.getSession()\<close> either throws or returns
  a session whose \<open>data?.session?.access_token\<close> is a string or is missing (\<open>None\<close>).
  \<open>fetch\<close> either throws (network failure) or returns a response with a status;
  \<open>response.ok\<close> is true exactly for the statuses 200 to 299.
\<close>

datatype session_result = SessionThrows | SessionToken "string option"

datatype fetch_result = FetchThrows | FetchStatus nat

datatype effect =
    ConsoleError string
  | ConsoleLog string
  | Alert string
  | FetchDeploy string FormData
  | SetTimeout nat
  | RouterPush string

definition response_ok :: "nat \<Rightarrow> bool" where
  "response_ok status = (200 \<le> status \<and> status \<le> 299)"

text \<open>\<open>!token\<close>: a missing token and the empty string are both falsy.\<close>

definition token_missing :: "string option \<Rightarrow> bool" where
  "token_missing token = (case token of None \<Rightarrow> True | Some t \<Rightarrow> t = [])"

text \<open>
  The loop over \<open>secretPairs\<close>: true when some pair has an empty key or an empty value
  (the loop alerts and returns at the first such pair).
\<close>

fun anySecretEmpty :: "SecretPair list \<Rightarrow> bool" where
  "anySecretEmpty [] = False"
| "anySecretEmpty (p # ps) = (if skey p = [] \<or> svalue p = [] then True else anySecretEmpty ps)"

text \<open>\<open>Math.floor(Math.random() * 1000) + 1000\<close>, with the random number as an input.\<close>

definition delay_of :: "rat \<Rightarrow> nat" where
  "delay_of rnd = nat \<lfloor>rnd * 1000\<rfloor> + 1000"

definition handleSubmit ::
  "session_result \<Rightarrow> fetch_result \<Rightarrow> rat \<Rightarrow> DeployFormState \<Rightarrow> DeployFormState \<times> effect list" where
  "handleSubmit session response rnd s =
    (let formData = \<lparr>pipeline_name = pipelineName s, repo_url = githubUrl s,
                      secret_pairs = secretPairs s\<rparr>
     in case session of
          SessionThrows \<Rightarrow>
            (s\<lparr>isLoading := False\<rparr>,
             [ConsoleError ''Error creating pipeline:'',
              Alert ''An error occurred while creating the pipeline. Please try again.''])
        | SessionToken token \<Rightarrow>
            if token_missing token then (s, [ConsoleError ''Access token not found''])
            else if pipelineName s = [] then (s, [Alert ''Please enter a pipeline name''])
            else if githubUrl s = [] then (s, [Alert ''Please enter a GitHub URL''])
            else if anySecretEmpty (secretPairs s)
              then (s, [Alert ''Please enter a secret key and value''])
            else (case response of
                FetchThrows \<Rightarrow>
                  (s\<lparr>isLoading := False\<rparr>,
                   [FetchDeploy (the token) formData,
                    ConsoleError ''Error creating pipeline:'',
                    Alert ''An error occurred while creating the pipeline. Please try again.''])
              | FetchStatus status \<Rightarrow>
                  if response_ok status
                  then (s\<lparr>isLoading := True\<rparr>,
                        [FetchDeploy (the token) formData,
                         ConsoleLog ''Pipeline created successfully'',
                         SetTimeout (delay_of rnd)])
                  else (s\<lparr>isLoading := False\<rparr>,
                        [FetchDeploy (the token) formData,
                         ConsoleError ''Pipeline creation failed'',
                         Alert ''Failed to create the pipeline. Please try again.''])))"

text \<open>The callback that \<open>setTimeout\<close> runs after a successful creation.\<close>

definition onDeployTimeout :: "DeployFormState \<Rightarrow> DeployFormState \<times> effect list" where
  "onDeployTimeout s =
    (s\<lparr>pipelineName := [], githubUrl := [], selectedApiKey := [],
       secretPairs := [\<lparr>skey = [], svalue = []\<rparr>],
       newPublicKey := [], newPrivateKey := [], isLoading := False\<rparr>,
     [RouterPush ''/''])"

text \<open>Observations on a trace: the messages shown to the user and the requests sent.\<close>

fun alerts :: "effect list \<Rightarrow> string list" where
  "alerts [] = []"
| "alerts (Alert m # es) = m # alerts es"
| "alerts (_ # es) = alerts es"

fun requests :: "effect list \<Rightarrow> (string \<times> FormData) list" where
  "requests [] = []"
| "requests (FetchDeploy t d # es) = (t, d) # requests es"
| "requests (_ # es) = requests es"

section \<open>Pipeline store\<close>

text \<open>
  \<open>updatePipelines\<close> replaces the \<open>pipelines\<close> object by
  \<open>{...prevPipelines, [pipelineId]: pipeline}\<close>. The object is a map from keys to
  pipelines; the \<open>Pipeline\<close> type is not part of the store and stays a type parameter.
\<close>

definition updatePipelines :: "string \<Rightarrow> 'p \<Rightarrow> (string \<rightharpoonup> 'p) \<Rightarrow> (string \<rightharpoonup> 'p)" where
  "updatePipelines pipelineId pipeline prevPipelines = prevPipelines(pipelineId \<mapsto> pipeline)"

section \<open>Properties of the retrieval log table\<close>

subsection \<open>Consistent comparison functions\<close>

lemma consistent_on_subset: "consistent_on S cmp \<Longrightarrow> T \<subseteq> S \<Longrightarrow> consistent_on T cmp"
  unfolding consistent_on_def by blast

lemma consistent_on_flip:
  assumes "consistent_on S cmp" "x \<in> S" "y \<in> S" "0 < cmp x y"
  shows "cmp y x < 0"
proof (rule ccontr)
  assume "\<not> cmp y x < 0"
  then consider "cmp y x = 0" | "0 < cmp y x" by linarith
  then show False
  proof cases
    case 1
    with assms have "cmp x y = 0" unfolding consistent_on_def by blast
    with assms(4) show False by simp
  next
    case 2
    with assms have "0 < cmp x x" unfolding consistent_on_def by blast
    moreover from assms have "cmp x x = 0" unfolding consistent_on_def by blast
    ultimately show False by simp
  qed
qed

lemma consistent_on_flip':
  assumes "consistent_on S cmp" "x \<in> S" "y \<in> S" "cmp x y < 0"
  shows "0 < cmp y x"
proof (rule ccontr)
  assume "\<not> 0 < cmp y x"
  then consider "cmp y x = 0" | "cmp y x < 0" by linarith
  then show False
  proof cases
    case 1
    with assms have "cmp x y = 0" unfolding consistent_on_def by blast
    with assms(4) show False by simp
  next
    case 2
    with assms have "cmp x x < 0" unfolding consistent_on_def by blast
    moreover from assms have "cmp x x = 0" unfolding consistent_on_def by blast
    ultimately show False by simp
  qed
qed

lemma consistent_on_lt_eq:
  assumes c: "consistent_on S cmp" and m: "x \<in> S" "y \<in> S" "z \<in> S"
    and xy: "cmp x y < 0" and yz: "cmp y z = 0"
  shows "cmp x z < 0"
proof (rule ccontr)
  assume "\<not> cmp x z < 0"
  then consider "cmp x z = 0" | "0 < cmp x z" by linarith
  then show False
  proof cases
    case 1
    from c m yz have "cmp z y = 0" unfolding consistent_on_def by blast
    with 1 c m have "cmp x y = 0" unfolding consistent_on_def by blast
    with xy show False by simp
  next
    case 2
    from consistent_on_flip' [OF c m(1) m(2) xy] have "0 < cmp y x" .
    with 2 c m have "0 < cmp y z" unfolding consistent_on_def by blast
    with yz show False by simp
  qed
qed

lemma consistent_on_eq_lt:
  assumes c: "consistent_on S cmp" and m: "x \<in> S" "y \<in> S" "z \<in> S"
    and xy: "cmp x y = 0" and yz: "cmp y z < 0"
  shows "cmp x z < 0"
proof (rule ccontr)
  assume "\<not> cmp x z < 0"
  then consider "cmp x z = 0" | "0 < cmp x z" by linarith
  then show False
  proof cases
    case 1
    from c m xy have "cmp y x = 0" unfolding consistent_on_def by blast
    with 1 c m have "cmp y z = 0" unfolding consistent_on_def by blast
    with yz show False by simp
  next
    case 2
    from consistent_on_flip' [OF c m(2) m(3) yz] have "0 < cmp z y" .
    with 2 c m have "0 < cmp x y" unfolding consistent_on_def by blast
    with xy show False by simp
  qed
qed

lemma consistent_on_trans:
  assumes c: "consistent_on S cmp" and m: "x \<in> S" "y \<in> S" "z \<in> S"
    and xy: "cmp x y \<le> 0" and yz: "cmp y z \<le> 0"
  shows "cmp x z \<le> 0"
proof -
  consider "cmp x y < 0" "cmp y z < 0" | "cmp x y < 0" "cmp y z = 0"
    | "cmp x y = 0" "cmp y z < 0" | "cmp x y = 0" "cmp y z = 0"
    using xy yz by linarith
  then show ?thesis
  proof cases
    case 1
    with c m have "cmp x z < 0" unfolding consistent_on_def by blast
    then show ?thesis by simp
  next
    case 2
    then show ?thesis using consistent_on_lt_eq [OF c m] by simp
  next
    case 3
    then show ?thesis using consistent_on_eq_lt [OF c m] by simp
  next
    case 4
    with c m have "cmp x z = 0" unfolding consistent_on_def by blast
    then show ?thesis by simp
  qed
qed

lemma consistent_on_total:
  "consistent_on S cmp \<Longrightarrow> x \<in> S \<Longrightarrow> y \<in> S \<Longrightarrow> 0 < cmp x y \<Longrightarrow> cmp y x \<le> 0"
  using consistent_on_flip [of S cmp x y] by simp


subsection \<open>Insertion and merging\<close>

lemma mset_insert_sorted: "mset (insert_sorted cmp x ys) = add_mset x (mset ys)"
  by (induction ys) auto

lemma mset_stable_sort: "mset (stable_sort cmp xs) = mset xs"
  by (induction xs) (auto simp: mset_insert_sorted)

lemma set_insert_sorted: "set (insert_sorted cmp x ys) = insert x (set ys)"
  by (induction ys) auto

lemma set_stable_sort: "set (stable_sort cmp xs) = set xs"
  by (induction xs) (auto simp: set_insert_sorted)








lemma conforming_stable_sort: "conforming_sort stable_sort"
  by (simp add: conforming_sort_def mset_stable_sort)



subsection \<open>The stable sort\<close>

lemma length_insert_sorted: "length (insert_sorted cmp x ys) = Suc (length ys)"
  by (induction ys) auto

lemma filter_insert_sorted:
  assumes "P x \<Longrightarrow> \<forall>y\<in>set ys. P y \<longrightarrow> \<not> 0 < cmp x y"
  shows "filter P (insert_sorted cmp x ys) = (if P x then x # filter P ys else filter P ys)"
  using assms by (induction ys) auto

lemma stable_sort_keeps_order:
  assumes "\<forall>x y. P x \<and> P y \<longrightarrow> \<not> 0 < cmp x y"
  shows "filter P (stable_sort cmp xs) = filter P xs"
proof (induction xs)
  case Nil
  show ?case by simp
next
  case (Cons x xs)
  have "filter P (insert_sorted cmp x (stable_sort cmp xs))
        = (if P x then x # filter P (stable_sort cmp xs) else filter P (stable_sort cmp xs))"
    by (rule filter_insert_sorted) (use assms in blast)
  with Cons show ?case by simp
qed

lemma sorted_insert_sorted:
  assumes "consistent_on (insert x (set ys)) cmp"
    and "sorted_wrt (\<lambda>a b. cmp a b \<le> 0) ys"
  shows "sorted_wrt (\<lambda>a b. cmp a b \<le> 0) (insert_sorted cmp x ys)"
  using assms
proof (induction ys)
  case Nil
  then show ?case by simp
next
  case (Cons y ys)
  note con = Cons.prems(1)
  have sub: "consistent_on (insert x (set ys)) cmp"
    by (rule consistent_on_subset [OF con]) auto
  from Cons.prems(2) have tl: "sorted_wrt (\<lambda>a b. cmp a b \<le> 0) ys"
    and hd: "\<forall>z\<in>set ys. cmp y z \<le> 0" by simp_all
  show ?case
  proof (cases "0 < cmp x y")
    case True
    have yx: "cmp y x \<le> 0"
      by (rule consistent_on_total [OF con _ _ True]) simp_all
    have "sorted_wrt (\<lambda>a b. cmp a b \<le> 0) (insert_sorted cmp x ys)"
      by (rule Cons.IH [OF sub tl])
    moreover have "\<forall>z\<in>set (insert_sorted cmp x ys). cmp y z \<le> 0"
      using yx hd by (simp add: set_insert_sorted)
    ultimately show ?thesis using True by simp
  next
    case False
    then have xy: "cmp x y \<le> 0" by simp
    have "\<forall>z\<in>set ys. cmp x z \<le> 0"
    proof
      fix z assume z: "z \<in> set ys"
      with hd have yz: "cmp y z \<le> 0" by simp
      show "cmp x z \<le> 0"
        by (rule consistent_on_trans [OF con _ _ _ xy yz]) (use z in simp_all)
    qed
    with xy hd tl False show ?thesis by simp
  qed
qed

lemma sorted_stable_sort:
  assumes "consistent_on (set xs) cmp"
  shows "sorted_wrt (\<lambda>a b. cmp a b \<le> 0) (stable_sort cmp xs)"
  using assms
proof (induction xs)
  case Nil
  show ?case by simp
next
  case (Cons x xs)
  have "consistent_on (set xs) cmp"
    by (rule consistent_on_subset [OF Cons.prems]) auto
  then have "sorted_wrt (\<lambda>a b. cmp a b \<le> 0) (stable_sort cmp xs)" by (rule Cons.IH)
  moreover have "consistent_on (insert x (set (stable_sort cmp xs))) cmp"
    using Cons.prems by (simp add: set_stable_sort)
  ultimately show ?case by (simp add: sorted_insert_sorted)
qed

text \<open>
  For a consistent comparison function the insertion sort returns the elements in
  sorted order, and each class of elements that compare equal in its input order.
\<close>

lemma stable_sort_sorted_and_stable:
  assumes "consistent_on (set xs) cmp"
  shows "sorted_wrt (\<lambda>a b. cmp a b \<le> 0) (stable_sort cmp xs)
       \<and> (\<forall>a\<in>set xs. filter (\<lambda>x. x \<in> set xs \<and> cmp a x = 0) (stable_sort cmp xs)
                        = filter (\<lambda>x. x \<in> set xs \<and> cmp a x = 0) xs)"
proof (intro conjI ballI)
  show "sorted_wrt (\<lambda>a b. cmp a b \<le> 0) (stable_sort cmp xs)"
    using assms by (rule sorted_stable_sort)
next
  fix a assume a: "a \<in> set xs"
  have "\<forall>x y. (x \<in> set xs \<and> cmp a x = 0) \<and> (y \<in> set xs \<and> cmp a y = 0)
          \<longrightarrow> \<not> 0 < cmp x y"
  proof (intro allI impI)
    fix x y
    assume h: "(x \<in> set xs \<and> cmp a x = 0) \<and> (y \<in> set xs \<and> cmp a y = 0)"
    with assms a have "cmp x a = 0" unfolding consistent_on_def by blast
    with assms a h have "cmp x y = 0" unfolding consistent_on_def by blast
    then show "\<not> 0 < cmp x y" by simp
  qed
  then show "filter (\<lambda>x. x \<in> set xs \<and> cmp a x = 0) (stable_sort cmp xs)
             = filter (\<lambda>x. x \<in> set xs \<and> cmp a x = 0) xs"
    by (rule stable_sort_keeps_order)
qed

subsection \<open>Conforming sorts\<close>

lemma conforming_mset: "conforming_sort srt \<Longrightarrow> mset (srt cmp xs) = mset xs"
  by (simp add: conforming_sort_def)

lemma conforming_set: "conforming_sort srt \<Longrightarrow> set (srt cmp xs) = set xs"
  using conforming_mset [of srt cmp xs] by (auto dest: mset_eq_setD)

lemma conforming_length: "conforming_sort srt \<Longrightarrow> length (srt cmp xs) = length xs"
  using conforming_mset [of srt cmp xs] by (auto dest: mset_eq_length)


subsection \<open>The comparison operators\<close>












subsection \<open>The comparison function of the table\<close>












subsection \<open>Slicing\<close>

lemma set_js_slice: "set (js_slice xs start fin) \<subseteq> set xs"
  unfolding js_slice_def Let_def
  by (meson order_trans set_take_subset set_drop_subset)

lemma length_js_slice: "start \<le> fin \<Longrightarrow> length (js_slice xs start fin) \<le> nat (fin - start)"
  unfolding js_slice_def Let_def by auto

lemma length_currentItems: "length (currentItems logs currentPage) \<le> 10"
  using length_js_slice [of "indexOfFirstItem currentPage" "indexOfLastItem currentPage"
      "filteredLogs logs"]
  by (simp add: currentItems_def filteredLogs_def indexOfFirstItem_def itemsPerPage_def)

lemma set_currentItems: "set (currentItems logs currentPage) \<subseteq> set (filteredLogs logs)"
  unfolding currentItems_def filteredLogs_def by (rule set_js_slice)

subsection \<open>Sorting a page\<close>

lemma set_sortedItems:
  "conforming_sort srt \<Longrightarrow> set (sortedItems srt items sortField d) = set items"
  by (simp add: sortedItems_def conforming_set split: option.splits)

lemma length_sortedItems:
  "conforming_sort srt \<Longrightarrow> length (sortedItems srt items sortField d) = length items"
  by (simp add: sortedItems_def conforming_length split: option.splits)

subsection \<open>Callbacks that may throw\<close>

lemma filter_throwing_Inr:
  "filter_throwing p xs = Inr ys \<Longrightarrow> ys = filter (\<lambda>x. p x = Inr True) xs"
  by (induction xs arbitrary: ys) (auto split: sum.splits)


lemma filter_throwing_Inl:
  "x \<in> set xs \<Longrightarrow> p x = Inl e \<Longrightarrow> \<exists>e'. filter_throwing p xs = Inl e'"
  by (induction xs) (auto split: sum.splits)

lemma some_throwing_total:
  "\<forall>x\<in>set xs. \<exists>b. p x = Inr b \<Longrightarrow>
     some_throwing p xs = Inr (\<exists>x\<in>set xs. p x = Inr True)"
  by (induction xs) (auto split: sum.splits)

lemma some_throwing_skip:
  "\<forall>x\<in>set pre. p x = Inr False \<Longrightarrow> some_throwing p (pre @ xs) = some_throwing p xs"
  by (induction pre) auto

subsection \<open>Substring search\<close>

lemma str_includes_sublist: "str_includes s q \<longleftrightarrow> sublist q s"
  by (induction s) (auto simp: sublist_Cons_right)

lemma sublist_length: "sublist q s \<Longrightarrow> length q \<le> length s"
  by (auto simp: sublist_def)

lemma length_toLowerCase: "length (toLowerCase s) = length s"
  by (simp add: toLowerCase_def)

subsection \<open>The text filter on one record\<close>

lemma toString_method_Inr:
  "v \<noteq> JUndefined \<Longrightarrow> v \<noteq> JNull \<Longrightarrow> toString_method v = Inr (to_string v)"
  by (cases v) (simp_all add: toString_method_def)

lemma toString_method_Inl:
  "v = JUndefined \<or> v = JNull \<Longrightarrow> toString_method v = Inl TypeError"
  by (auto simp: toString_method_def)

lemma itemValuesIncludeQuery_null_free:
  assumes "null_free item"
  shows "itemValuesIncludeQuery q item = Inr (\<exists>v\<in>set (Object_values item). value_matches q v)"
proof -
  let ?p = "\<lambda>v. case toString_method v of
              Inl e \<Rightarrow> Inl e
            | Inr s \<Rightarrow> Inr (str_includes (toLowerCase s) (toLowerCase q))"
  have p: "?p v = Inr (value_matches q v)" if "v \<in> set (Object_values item)" for v
    using that assms
    by (simp add: null_free_def toString_method_Inr str_includes_sublist value_matches_def)
  then have "some_throwing ?p (Object_values item)
             = Inr (\<exists>v\<in>set (Object_values item). ?p v = Inr True)"
    by (intro some_throwing_total) blast
  also have "(\<exists>v\<in>set (Object_values item). ?p v = Inr True)
             \<longleftrightarrow> (\<exists>v\<in>set (Object_values item). value_matches q v)"
    using p by auto
  finally show ?thesis by (simp add: itemValuesIncludeQuery_def)
qed

lemma itemValuesIncludeQuery_throws:
  assumes "Object_values item = pre @ v # post"
    and "v = JUndefined \<or> v = JNull"
    and "\<forall>u\<in>set pre. u \<noteq> JUndefined \<and> u \<noteq> JNull \<and> \<not> value_matches q u"
  shows "itemValuesIncludeQuery q item = Inl TypeError"
proof -
  let ?p = "\<lambda>v. case toString_method v of
              Inl e \<Rightarrow> Inl e
            | Inr s \<Rightarrow> Inr (str_includes (toLowerCase s) (toLowerCase q))"
  have "\<forall>u\<in>set pre. ?p u = Inr False"
    using assms(3) by (simp add: toString_method_Inr str_includes_sublist value_matches_def)
  then have "some_throwing ?p (pre @ v # post) = some_throwing ?p (v # post)"
    by (rule some_throwing_skip)
  also have "\<dots> = Inl TypeError"
    using assms(2) by (auto simp: toString_method_def)
  finally show ?thesis by (simp add: itemValuesIncludeQuery_def assms(1))
qed

lemma first_null_split:
  assumes "\<exists>v\<in>set vs. v = JUndefined \<or> v = JNull"
  shows "\<exists>pre v post. vs = pre @ v # post \<and> (v = JUndefined \<or> v = JNull)
           \<and> (\<forall>u\<in>set pre. u \<noteq> JUndefined \<and> u \<noteq> JNull)"
proof -
  from assms obtain pre v post where
    "vs = pre @ v # post" "v = JUndefined \<or> v = JNull"
    "\<forall>u\<in>set pre. \<not> (u = JUndefined \<or> u = JNull)"
    using split_list_first_prop [of vs "\<lambda>v. v = JUndefined \<or> v = JNull"] by blast
  then show ?thesis by blast
qed

lemma long_query_matches_nothing:
  assumes "u \<in> set pre"
    and "length q = Suc (sum_list (map (\<lambda>u. length (to_string u)) pre))"
  shows "\<not> value_matches q u"
proof
  assume "value_matches q u"
  then have "length q \<le> length (to_string u)"
    using sublist_length [of "toLowerCase q" "toLowerCase (to_string u)"]
    by (simp add: value_matches_def length_toLowerCase)
  moreover have "length (to_string u) \<le> sum_list (map (\<lambda>u. length (to_string u)) pre)"
    using assms(1) by (induction pre) auto
  ultimately show False using assms(2) by simp
qed

lemma itemValuesIncludeQuery_some_query_throws:
  assumes "\<not> null_free item"
  shows "\<exists>q. itemValuesIncludeQuery q item = Inl TypeError"
proof -
  from assms obtain pre v post where
    sp: "Object_values item = pre @ v # post" and v: "v = JUndefined \<or> v = JNull"
    and pre: "\<forall>u\<in>set pre. u \<noteq> JUndefined \<and> u \<noteq> JNull"
    using first_null_split [of "Object_values item"] unfolding null_free_def by blast
  define q where "q = replicate (Suc (sum_list (map (\<lambda>u. length (to_string u)) pre))) CHR ''x''"
  have "\<forall>u\<in>set pre. u \<noteq> JUndefined \<and> u \<noteq> JNull \<and> \<not> value_matches q u"
    using pre long_query_matches_nothing [of _ pre q] by (simp add: q_def)
  with sp v have "itemValuesIncludeQuery q item = Inl TypeError"
    by (rule itemValuesIncludeQuery_throws)
  then show ?thesis ..
qed

subsection \<open>Page slice before text filter\<close>

text \<open>
  C1: for every record snapshot, sort selection, filter text and page number, and
  whichever conforming sort the engine has, the rows
  are the text filter applied to the sorted page window, and the page window is the slice
  \<open>[page * 10 - 10, page * 10)\<close> of the category-filtered records. Whenever rows are
  rendered they are the matching records of that window, in the window's sorted order:
  a subsequence of the sorted window, drawn from the current page only, at most ten. The
  text filter never reaches records outside the page window.
\<close>

theorem Retrieval_rows_slice_then_filter:
  assumes "conforming_sort srt"
  shows "Retrieval_rows srt logs page sortField d q
     = filteredAndSortedItems
         (sortedItems srt (js_slice (filteredLogs logs) (page * 10 - 10) (page * 10)) sortField d) q
   \<and> (\<forall>rows. Retrieval_rows srt logs page sortField d q = Inr rows \<longrightarrow>
          rows = filter (\<lambda>item. itemValuesIncludeQuery q item = Inr True)
                   (sortedItems srt (currentItems logs page) sortField d)
        \<and> subseq rows (sortedItems srt (currentItems logs page) sortField d)
        \<and> set rows \<subseteq> set (currentItems logs page)
        \<and> length rows \<le> 10)"
proof (intro conjI allI impI)
  show "Retrieval_rows srt logs page sortField d q
     = filteredAndSortedItems
         (sortedItems srt (js_slice (filteredLogs logs) (page * 10 - 10) (page * 10)) sortField d) q"
    by (simp add: Retrieval_rows_def currentItems_def filteredLogs_def indexOfFirstItem_def
        indexOfLastItem_def itemsPerPage_def)
next
  fix rows
  assume "Retrieval_rows srt logs page sortField d q = Inr rows"
  then show rows: "rows = filter (\<lambda>item. itemValuesIncludeQuery q item = Inr True)
                   (sortedItems srt (currentItems logs page) sortField d)"
    unfolding Retrieval_rows_def filteredAndSortedItems_def by (rule filter_throwing_Inr)
  show "subseq rows (sortedItems srt (currentItems logs page) sortField d)"
    unfolding rows by (rule subseq_filter_left)
  show "set rows \<subseteq> set (currentItems logs page)"
    unfolding rows using set_sortedItems [OF assms, of "currentItems logs page" sortField d]
    by auto
  have "length rows \<le> length (sortedItems srt (currentItems logs page) sortField d)"
    unfolding rows by (rule length_filter_le)
  then show "length rows \<le> 10"
    using length_currentItems [of logs page] by (simp add: length_sortedItems [OF assms])
qed

theorem Retrieval_rows_slice_then_filter_witness:
  "conforming_sort (stable_sort :: js_object array_sort)
   \<and> Retrieval_rows stable_sort
     [[(''pipelineRunType'', JStr ''embedding''), (''method'', JStr ''Search'')],
      [(''pipelineRunType'', JStr ''search''), (''method'', JStr ''Search''), (''timestamp'', JStr ''1'')],
      [(''pipelineRunType'', JStr ''rag''), (''method'', JStr ''Generate Completion''), (''timestamp'', JStr ''2'')]]
     1 (Some ''timestamp'') Desc ''SEARCH''
   = Inr [[(''pipelineRunType'', JStr ''search''), (''method'', JStr ''Search''), (''timestamp'', JStr ''1'')]]
   \<and> length [[(''pipelineRunType'', JStr ''search''), (''method'', JStr ''Search''), (''timestamp'', JStr ''1'')]] \<le> 10"
proof -
  let ?logs = "[[(''pipelineRunType'', JStr ''embedding''), (''method'', JStr ''Search'')],
      [(''pipelineRunType'', JStr ''search''), (''method'', JStr ''Search''), (''timestamp'', JStr ''1'')],
      [(''pipelineRunType'', JStr ''rag''), (''method'', JStr ''Generate Completion''), (''timestamp'', JStr ''2'')]]"
  let ?rows = "[[(''pipelineRunType'', JStr ''search''), (''method'', JStr ''Search''), (''timestamp'', JStr ''1'')]]"
  have conf: "conforming_sort (stable_sort :: js_object array_sort)"
    by (rule conforming_stable_sort)
  have run: "Retrieval_rows stable_sort ?logs 1 (Some ''timestamp'') Desc ''SEARCH'' = Inr ?rows"
    by code_simp
  with Retrieval_rows_slice_then_filter [OF conf, of ?logs 1 "Some ''timestamp''" Desc "''SEARCH''"]
  have "length ?rows \<le> 10" by blast
  with conf run show ?thesis by blast
qed

text \<open>
  Eleven records of which only the last contains \<open>b\<close>: with filter text \<open>b\<close> page 1 is
  empty and the match is shown on page 2, where it sits without the filter.
\<close>

lemma slice_before_filter_example:
  "Retrieval_rows stable_sort
     (replicate 10 [(''method'', JStr ''a'')] @ [[(''method'', JStr ''b'')]])
     1 (Some ''timestamp'') Desc ''b'' = Inr []
   \<and> Retrieval_rows stable_sort
     (replicate 10 [(''method'', JStr ''a'')] @ [[(''method'', JStr ''b'')]])
     2 (Some ''timestamp'') Desc ''b'' = Inr [[(''method'', JStr ''b'')]]"
  by code_simp

subsection \<open>Embedding records are excluded\<close>

text \<open>
  C2: for every record snapshot, filter text, sort field, sort direction and page number,
  and whichever conforming sort the engine has, no rendered row has \<open>pipelineRunType\<close> equal to \<open>embedding\<close> (nor has any record of the
  sorted page window), and the \<open>totalItems\<close> given to the pagination control is the number
  of records whose \<open>pipelineRunType\<close> is not \<open>embedding\<close>: together with the embedding
  records they make up the snapshot.
\<close>

theorem Retrieval_excludes_embedding:
  assumes "conforming_sort srt"
  shows "(\<forall>rows. Retrieval_rows srt logs page sortField d q = Inr rows \<longrightarrow>
      (\<forall>item\<in>set rows. get_prop item ''pipelineRunType'' \<noteq> JStr ''embedding''))
   \<and> (\<forall>item\<in>set (sortedItems srt (currentItems logs page) sortField d).
        get_prop item ''pipelineRunType'' \<noteq> JStr ''embedding'')
   \<and> totalItems logs
       = length (filter (\<lambda>log. get_prop log ''pipelineRunType'' \<noteq> JStr ''embedding'') logs)
   \<and> totalItems logs
       + length (filter (\<lambda>log. get_prop log ''pipelineRunType'' = JStr ''embedding'') logs)
       = length logs"
proof -
  have window: "get_prop item ''pipelineRunType'' \<noteq> JStr ''embedding''"
    if "item \<in> set (currentItems logs page)" for item
    using that set_currentItems [of logs page] by (auto simp: filteredLogs_def)
  have sorted_window: "\<forall>item\<in>set (sortedItems srt (currentItems logs page) sortField d).
        get_prop item ''pipelineRunType'' \<noteq> JStr ''embedding''"
    using window by (simp add: set_sortedItems [OF assms])
  have rendered: "\<forall>rows. Retrieval_rows srt logs page sortField d q = Inr rows \<longrightarrow>
      (\<forall>item\<in>set rows. get_prop item ''pipelineRunType'' \<noteq> JStr ''embedding'')"
  proof (intro allI impI ballI)
    fix rows item
    assume "Retrieval_rows srt logs page sortField d q = Inr rows" and "item \<in> set rows"
    then have "item \<in> set (sortedItems srt (currentItems logs page) sortField d)"
      unfolding Retrieval_rows_def filteredAndSortedItems_def
      by (auto dest: filter_throwing_Inr)
    with sorted_window show "get_prop item ''pipelineRunType'' \<noteq> JStr ''embedding''"
      by blast
  qed
  have total: "totalItems logs
       = length (filter (\<lambda>log. get_prop log ''pipelineRunType'' \<noteq> JStr ''embedding'') logs)"
    by (simp add: totalItems_def filteredLogs_def)
  have compl: "totalItems logs
       + length (filter (\<lambda>log. get_prop log ''pipelineRunType'' = JStr ''embedding'') logs)
       = length logs"
    using sum_length_filter_compl
      [of "\<lambda>log. get_prop log ''pipelineRunType'' = JStr ''embedding''" logs]
    by (simp add: totalItems_def filteredLogs_def)
  from rendered sorted_window total compl show ?thesis by (intro conjI)
qed

theorem Retrieval_excludes_embedding_witness:
  "conforming_sort (stable_sort :: js_object array_sort)
   \<and> Retrieval_rows stable_sort
     [[(''pipelineRunType'', JStr ''embedding''), (''method'', JStr ''Search'')],
      [(''pipelineRunType'', JStr ''search''), (''method'', JStr ''Search'')]]
     1 (Some ''timestamp'') Desc []
   = Inr [[(''pipelineRunType'', JStr ''search''), (''method'', JStr ''Search'')]]
   \<and> get_prop [(''pipelineRunType'', JStr ''search''), (''method'', JStr ''Search'')]
        ''pipelineRunType'' \<noteq> JStr ''embedding''
   \<and> totalItems
     [[(''pipelineRunType'', JStr ''embedding''), (''method'', JStr ''Search'')],
      [(''pipelineRunType'', JStr ''search''), (''method'', JStr ''Search'')]] = 1"
proof -
  let ?logs = "[[(''pipelineRunType'', JStr ''embedding''), (''method'', JStr ''Search'')],
      [(''pipelineRunType'', JStr ''search''), (''method'', JStr ''Search'')]]"
  let ?row = "[(''pipelineRunType'', JStr ''search''), (''method'', JStr ''Search'')]"
  have conf: "conforming_sort (stable_sort :: js_object array_sort)"
    by (rule conforming_stable_sort)
  have run: "Retrieval_rows stable_sort ?logs 1 (Some ''timestamp'') Desc [] = Inr [?row]"
    by code_simp
  note inst = Retrieval_excludes_embedding [OF conf, of ?logs 1 "Some ''timestamp''" Desc "[]"]
  from inst run have "get_prop ?row ''pipelineRunType'' \<noteq> JStr ''embedding''" by simp
  moreover from inst have "totalItems ?logs = 1" by (simp add: get_prop_def)
  ultimately show ?thesis using conf run by blast
qed

subsection \<open>The text filter\<close>






text \<open>
  C10: the text filter calls \<open>toString()\<close> on field values without a null guard. On a
  null-free record it returns a decision for every filter text. On a record with a
  \<open>null\<close> or \<open>undefined\<close> field value it does not: some filter text makes it throw. It
  throws a \<open>TypeError\<close> exactly when it reaches such a value, that is when the values in
  front of it are neither \<open>null\<close> nor \<open>undefined\<close> and do not match; the exception then
  ends the filtering of the whole list.
\<close>

theorem text_filter_partial:
  "(null_free item \<longrightarrow> (\<exists>b. itemValuesIncludeQuery q item = Inr b))
   \<and> (\<not> null_free item \<longrightarrow> (\<exists>q'. itemValuesIncludeQuery q' item = Inl TypeError))
   \<and> (Object_values item = pre @ v # post \<and> (v = JUndefined \<or> v = JNull)
        \<and> (\<forall>u\<in>set pre. u \<noteq> JUndefined \<and> u \<noteq> JNull \<and> \<not> value_matches q u)
       \<longrightarrow> itemValuesIncludeQuery q item = Inl TypeError
           \<and> (item \<in> set items \<longrightarrow> filteredAndSortedItems items q = Inl TypeError))"
proof (intro conjI impI)
  assume "null_free item"
  then show "\<exists>b. itemValuesIncludeQuery q item = Inr b"
    by (simp add: itemValuesIncludeQuery_null_free)
next
  assume "\<not> null_free item"
  then show "\<exists>q'. itemValuesIncludeQuery q' item = Inl TypeError"
    by (rule itemValuesIncludeQuery_some_query_throws)
next
  assume a: "Object_values item = pre @ v # post \<and> (v = JUndefined \<or> v = JNull)
        \<and> (\<forall>u\<in>set pre. u \<noteq> JUndefined \<and> u \<noteq> JNull \<and> \<not> value_matches q u)"
  then show t: "itemValuesIncludeQuery q item = Inl TypeError"
    using itemValuesIncludeQuery_throws [of item pre v post q] by blast
  assume "item \<in> set items"
  then obtain e where "filter_throwing (itemValuesIncludeQuery q) items = Inl e"
    using filter_throwing_Inl [of item items "itemValuesIncludeQuery q" TypeError] t by blast
  then show "filteredAndSortedItems items q = Inl TypeError"
    by (cases e) (simp add: filteredAndSortedItems_def)
qed

theorem text_filter_partial_witness:
  "\<not> null_free [(''method'', JStr ''Search''), (''searchQuery'', JNull)]
   \<and> Object_values [(''method'', JStr ''Search''), (''searchQuery'', JNull)]
       = [JStr ''Search''] @ JNull # []
   \<and> \<not> value_matches ''rag'' (JStr ''Search'')
   \<and> itemValuesIncludeQuery ''rag'' [(''method'', JStr ''Search''), (''searchQuery'', JNull)]
       = Inl TypeError
   \<and> null_free [(''method'', JStr ''Search'')]
   \<and> itemValuesIncludeQuery ''rag'' [(''method'', JStr ''Search'')] = Inr False"
proof -
  let ?item = "[(''method'', JStr ''Search''), (''searchQuery'', JNull)]"
  have nf: "\<not> null_free ?item" by (simp add: null_free_def Object_values_def)
  have ov: "Object_values ?item = [JStr ''Search''] @ JNull # []"
    by (simp add: Object_values_def)
  have "\<not> str_includes (toLowerCase ''Search'') (toLowerCase ''rag'')" by code_simp
  then have nm: "\<not> value_matches ''rag'' (JStr ''Search'')"
    by (simp add: value_matches_def str_includes_sublist)
  have "itemValuesIncludeQuery ''rag'' ?item = Inl TypeError"
    using text_filter_partial [of ?item "''rag''" "[JStr ''Search'']" JNull "[]"] ov nm
    by simp
  moreover have nf2: "null_free [(''method'', JStr ''Search'')]"
    by (simp add: null_free_def Object_values_def)
  moreover have "itemValuesIncludeQuery ''rag'' [(''method'', JStr ''Search'')] = Inr False"
    by code_simp
  ultimately show ?thesis using nf ov nm by blast
qed

subsection \<open>Sorting by score\<close>







subsection \<open>Stability of the sort\<close>





section \<open>Properties of the deploy form\<close>

lemma anySecretEmpty_iff:
  "anySecretEmpty ps \<longleftrightarrow> (\<exists>p\<in>set ps. skey p = [] \<or> svalue p = [])"
  by (induction ps) auto

text \<open>
  C6: with a credential available, validation runs in the order pipeline name, GitHub URL,
  secret pairs. The first check that fails decides the message; the handler then shows
  exactly that one alert, sends no request and leaves the state (the in-flight flag
  included) as it was.
\<close>

theorem handleSubmit_validation:
  assumes "t \<noteq> []"
  shows "(pipelineName s = [] \<longrightarrow>
            handleSubmit (SessionToken (Some t)) response rnd s
              = (s, [Alert ''Please enter a pipeline name'']))
       \<and> (pipelineName s \<noteq> [] \<and> githubUrl s = [] \<longrightarrow>
            handleSubmit (SessionToken (Some t)) response rnd s
              = (s, [Alert ''Please enter a GitHub URL'']))
       \<and> (pipelineName s \<noteq> [] \<and> githubUrl s \<noteq> []
            \<and> (\<exists>p\<in>set (secretPairs s). skey p = [] \<or> svalue p = []) \<longrightarrow>
            handleSubmit (SessionToken (Some t)) response rnd s
              = (s, [Alert ''Please enter a secret key and value'']))
       \<and> (pipelineName s = [] \<or> githubUrl s = []
            \<or> (\<exists>p\<in>set (secretPairs s). skey p = [] \<or> svalue p = []) \<longrightarrow>
            requests (snd (handleSubmit (SessionToken (Some t)) response rnd s)) = []
            \<and> length (alerts (snd (handleSubmit (SessionToken (Some t)) response rnd s))) = 1
            \<and> fst (handleSubmit (SessionToken (Some t)) response rnd s) = s)"
  using assms
  by (auto simp: handleSubmit_def token_missing_def anySecretEmpty_iff Let_def)

theorem handleSubmit_validation_witness:
  "handleSubmit (SessionToken (Some ''tok'')) (FetchStatus 200) 0
     \<lparr>secretPairs = [\<lparr>skey = ''K'', svalue = ''V''\<rparr>], selectedApiKey = [], newPublicKey = [],
      newPrivateKey = [], newApiKeyName = [], pipelineName = [],
      githubUrl = ''https://github.com/a/b'', isLoading = False\<rparr>
   = (\<lparr>secretPairs = [\<lparr>skey = ''K'', svalue = ''V''\<rparr>], selectedApiKey = [], newPublicKey = [],
      newPrivateKey = [], newApiKeyName = [], pipelineName = [],
      githubUrl = ''https://github.com/a/b'', isLoading = False\<rparr>,
      [Alert ''Please enter a pipeline name''])
   \<and> handleSubmit (SessionToken (Some ''tok'')) (FetchStatus 200) 0
     \<lparr>secretPairs = [\<lparr>skey = ''K'', svalue = ''V''\<rparr>], selectedApiKey = [], newPublicKey = [],
      newPrivateKey = [], newApiKeyName = [], pipelineName = ''p'',
      githubUrl = [], isLoading = False\<rparr>
   = (\<lparr>secretPairs = [\<lparr>skey = ''K'', svalue = ''V''\<rparr>], selectedApiKey = [], newPublicKey = [],
      newPrivateKey = [], newApiKeyName = [], pipelineName = ''p'',
      githubUrl = [], isLoading = False\<rparr>,
      [Alert ''Please enter a GitHub URL''])
   \<and> handleSubmit (SessionToken (Some ''tok'')) (FetchStatus 200) 0
     \<lparr>secretPairs = [\<lparr>skey = ''K'', svalue = []\<rparr>], selectedApiKey = [], newPublicKey = [],
      newPrivateKey = [], newApiKeyName = [], pipelineName = ''p'',
      githubUrl = ''u'', isLoading = False\<rparr>
   = (\<lparr>secretPairs = [\<lparr>skey = ''K'', svalue = []\<rparr>], selectedApiKey = [], newPublicKey = [],
      newPrivateKey = [], newApiKeyName = [], pipelineName = ''p'',
      githubUrl = ''u'', isLoading = False\<rparr>,
      [Alert ''Please enter a secret key and value''])
   \<and> requests (snd (handleSubmit (SessionToken (Some ''tok'')) (FetchStatus 200) 0
     \<lparr>secretPairs = [\<lparr>skey = ''K'', svalue = ''V''\<rparr>], selectedApiKey = [], newPublicKey = [],
      newPrivateKey = [], newApiKeyName = [], pipelineName = [],
      githubUrl = ''https://github.com/a/b'', isLoading = False\<rparr>)) = []"
proof -
  have t: "''tok'' \<noteq> []" by simp
  note a = handleSubmit_validation [OF t, of
     "\<lparr>secretPairs = [\<lparr>skey = ''K'', svalue = ''V''\<rparr>], selectedApiKey = [], newPublicKey = [],
      newPrivateKey = [], newApiKeyName = [], pipelineName = [],
      githubUrl = ''https://github.com/a/b'', isLoading = False\<rparr>" "FetchStatus 200" 0]
  note b = handleSubmit_validation [OF t, of
     "\<lparr>secretPairs = [\<lparr>skey = ''K'', svalue = ''V''\<rparr>], selectedApiKey = [], newPublicKey = [],
      newPrivateKey = [], newApiKeyName = [], pipelineName = ''p'',
      githubUrl = [], isLoading = False\<rparr>" "FetchStatus 200" 0]
  note c = handleSubmit_validation [OF t, of
     "\<lparr>secretPairs = [\<lparr>skey = ''K'', svalue = []\<rparr>], selectedApiKey = [], newPublicKey = [],
      newPrivateKey = [], newApiKeyName = [], pipelineName = ''p'',
      githubUrl = ''u'', isLoading = False\<rparr>" "FetchStatus 200" 0]
  from a b c show ?thesis by simp
qed

text \<open>
  C7: when the form is valid and a credential is available, a response that is not ok, or
  a \<open>fetch\<close> that throws, ends with the in-flight flag cleared and one alert shown; the
  request was sent once (there is no retry), and the state differs from the state before
  the attempt at most in the in-flight flag, so name, URL and secret pairs are as entered.
\<close>

theorem handleSubmit_failure:
  assumes "t \<noteq> []" and "pipelineName s \<noteq> []" and "githubUrl s \<noteq> []"
    and "\<forall>p\<in>set (secretPairs s). skey p \<noteq> [] \<and> svalue p \<noteq> []"
    and "response = FetchThrows \<or> (\<exists>status. response = FetchStatus status \<and> \<not> response_ok status)"
    and "handleSubmit (SessionToken (Some t)) response rnd s = (s', es)"
  shows "isLoading s' = False
       \<and> length (alerts es) = 1
       \<and> length (requests es) = 1
       \<and> s' = s\<lparr>isLoading := False\<rparr>
       \<and> pipelineName s' = pipelineName s \<and> githubUrl s' = githubUrl s
       \<and> secretPairs s' = secretPairs s"
  using assms
  by (auto simp: handleSubmit_def token_missing_def anySecretEmpty_iff)

theorem handleSubmit_failure_witness:
  "\<not> response_ok 500
   \<and> handleSubmit (SessionToken (Some ''tok'')) (FetchStatus 500) 0
       \<lparr>secretPairs = [\<lparr>skey = ''K'', svalue = ''V''\<rparr>], selectedApiKey = [], newPublicKey = [],
        newPrivateKey = [], newApiKeyName = [], pipelineName = ''p'',
        githubUrl = ''u'', isLoading = False\<rparr>
     = (\<lparr>secretPairs = [\<lparr>skey = ''K'', svalue = ''V''\<rparr>], selectedApiKey = [], newPublicKey = [],
        newPrivateKey = [], newApiKeyName = [], pipelineName = ''p'',
        githubUrl = ''u'', isLoading = False\<rparr>,
        [FetchDeploy ''tok'' \<lparr>pipeline_name = ''p'', repo_url = ''u'',
                                secret_pairs = [\<lparr>skey = ''K'', svalue = ''V''\<rparr>]\<rparr>,
         ConsoleError ''Pipeline creation failed'',
         Alert ''Failed to create the pipeline. Please try again.''])
   \<and> length (alerts [FetchDeploy ''tok'' \<lparr>pipeline_name = ''p'', repo_url = ''u'',
                                secret_pairs = [\<lparr>skey = ''K'', svalue = ''V''\<rparr>]\<rparr>,
         ConsoleError ''Pipeline creation failed'',
         Alert ''Failed to create the pipeline. Please try again.'']) = 1"
proof -
  let ?s = "\<lparr>secretPairs = [\<lparr>skey = ''K'', svalue = ''V''\<rparr>], selectedApiKey = [],
        newPublicKey = [], newPrivateKey = [], newApiKeyName = [], pipelineName = ''p'',
        githubUrl = ''u'', isLoading = False\<rparr>"
  let ?es = "[FetchDeploy ''tok'' \<lparr>pipeline_name = ''p'', repo_url = ''u'',
                                secret_pairs = [\<lparr>skey = ''K'', svalue = ''V''\<rparr>]\<rparr>,
         ConsoleError ''Pipeline creation failed'',
         Alert ''Failed to create the pipeline. Please try again.'']"
  have ok: "\<not> response_ok 500" by (simp add: response_ok_def)
  have run: "handleSubmit (SessionToken (Some ''tok'')) (FetchStatus 500) 0 ?s = (?s, ?es)"
    by (simp add: handleSubmit_def token_missing_def response_ok_def)
  have "length (alerts ?es) = 1"
    using handleSubmit_failure [of "''tok''" ?s "FetchStatus 500" 0 ?s ?es] ok run by simp
  with ok run show ?thesis by simp
qed

text \<open>
  C8: with no credential (the token is missing or is the empty string) the handler writes
  to the console and returns. No request is sent, and no alert is shown: the only effect
  is the console line, which the user of the form does not see.
\<close>

theorem handleSubmit_no_token:
  "handleSubmit (SessionToken None) response rnd s = (s, [ConsoleError ''Access token not found''])
   \<and> handleSubmit (SessionToken (Some [])) response rnd s
       = (s, [ConsoleError ''Access token not found''])
   \<and> alerts (snd (handleSubmit (SessionToken None) response rnd s)) = []
   \<and> requests (snd (handleSubmit (SessionToken None) response rnd s)) = []"
  by (simp add: handleSubmit_def token_missing_def)

section \<open>Properties of the pipeline store\<close>

text \<open>
  C9: after \<open>updatePipelines p P\<close> the key \<open>p\<close> maps to \<open>P\<close>, every other key maps to what
  it mapped to before, and the set of keys grows by at most \<open>p\<close>.
\<close>

theorem updatePipelines_frame:
  "updatePipelines p P m p = Some P
   \<and> (\<forall>k. k \<noteq> p \<longrightarrow> updatePipelines p P m k = m k)
   \<and> dom (updatePipelines p P m) = insert p (dom m)"
  by (simp add: updatePipelines_def)

theorem updatePipelines_frame_witness:
  "updatePipelines ''a'' (1::nat) [''b'' \<mapsto> 2] ''a'' = Some 1
   \<and> ''b'' \<noteq> ''a''
   \<and> updatePipelines ''a'' (1::nat) [''b'' \<mapsto> 2] ''b'' = Some 2"
  using updatePipelines_frame [of "''a''" "1::nat" "[''b'' \<mapsto> 2]"] by simp

end
